theory Spec2Isabelle
  imports Complex_Main
begin

section \<open>Numbers of the runtime\<close>

text \<open>
  The monitor embedded here is the server with the sliding windows, the health tiers and
  the routes \<open>/\<close>, \<open>/dashboard\<close>, \<open>/events\<close>, \<open>/api/snapshot\<close> and \<open>/health\<close>. The file
  \<open>src/server.js\<close> is an earlier variant of it; of that one only \<open>cpuUsage\<close> is embedded,
  in a section of its own.

  Counters, tick counts and clock readings are integers (\<open>int\<close>); quotients are exact
  rationals (\<open>rat\<close>). The rounding error of the IEEE doubles behind a JavaScript Number is
  outside the model, and so is \<open>toFixed\<close> switching to exponent notation at \<open>1e21\<close>.
  Where the exact value lies on a decimal tie the double may lie just below it, and the
  code then shows the lower neighbour; the properties of rounded fields are therefore
  stated as distances from the exact value, which both neighbours meet.
  \<open>minResponseTime\<close> starts at \<open>Infinity\<close> and only ever meets finite integers, so it has a
  type of its own.
\<close>

definition Math_round :: "rat \<Rightarrow> int" where
  \<comment> \<open>\<open>Math.round\<close>: the nearest integer, a tie going up.\<close>
  "Math_round x = \<lfloor>x + 1 / 2\<rfloor>"

definition toFixed :: "nat \<Rightarrow> rat \<Rightarrow> rat" where
  \<comment> \<open>\<open>x.toFixed(f)\<close>, as the number its decimal string denotes: the sign is split off, then
     the integer \<open>n\<close> with \<open>n / 10^f\<close> nearest to \<open>x\<close> is taken, the larger one on a tie.\<close>
  "toFixed f x =
     (if x < 0 then - (of_int \<lfloor>(- x) * 10 ^ f + 1 / 2\<rfloor> / 10 ^ f)
      else of_int \<lfloor>x * 10 ^ f + 1 / 2\<rfloor> / 10 ^ f)"

definition pct :: "rat \<Rightarrow> rat \<Rightarrow> rat" where
  \<comment> \<open>\<open>pct = (a, b) => b ? ((a / b) * 100).toFixed(1) : 0\<close>\<close>
  "pct a b = (if b \<noteq> 0 then toFixed 1 ((a / b) * 100) else 0)"

definition js_or :: "rat \<Rightarrow> rat \<Rightarrow> rat" where
  \<comment> \<open>\<open>x || y\<close> on numbers: \<open>0\<close> is falsy.\<close>
  "js_or x y = (if x = 0 then y else x)"

datatype extnum = Infinity | Finite int

fun Math_min :: "extnum \<Rightarrow> int \<Rightarrow> extnum" where
  "Math_min Infinity e = Finite e"
| "Math_min (Finite m) e = Finite (min m e)"

fun ext_le :: "extnum \<Rightarrow> int \<Rightarrow> bool" where
  \<comment> \<open>\<open>a <= b\<close> for a possibly infinite \<open>a\<close> and a finite \<open>b\<close>\<close>
  "ext_le Infinity b = False"
| "ext_le (Finite a) b = (a \<le> b)"

section \<open>The CPU sampler\<close>

record cpu_times =
  user :: int
  nice :: int
  sys :: int
  idle :: int
  irq :: int

definition total_ticks :: "cpu_times \<Rightarrow> int" where
  "total_ticks c = user c + sys c + idle c + nice c + irq c"

definition cpuDiff :: "cpu_times list \<Rightarrow> int \<times> int \<Rightarrow> nat \<times> cpu_times \<Rightarrow> int \<times> int" where
  \<comment> \<open>the body of \<open>cpus.forEach((c, i) => ...)\<close>; \<open>lastCpu[i]?.times || c.times\<close> falls back
     to the current entry when the previous reading has no core \<open>i\<close>\<close>
  "cpuDiff prevs acc ic =
     (let prev = (if fst ic < length prevs then prevs ! fst ic else snd ic);
          curr = snd ic;
          idleDiff = idle curr - idle prev;
          totalDiff = total_ticks curr - total_ticks prev
      in (fst acc + idleDiff, snd acc + totalDiff))"

definition cpuPercent :: "cpu_times list \<Rightarrow> cpu_times list \<Rightarrow> int" where
  "cpuPercent prevs cpus =
     (let diffs = foldl (cpuDiff prevs) (0, 0) (enumerate 0 cpus);
          idle_sum = fst diffs; total = snd diffs
      in if total > 0 then Math_round ((1 - of_int idle_sum / of_int total) * 100) else 0)"

section \<open>The CPU sampler of \<open>src/server.js\<close>\<close>

text \<open>
  The earlier variant reads \<open>lastCpu[i].times\<close> with no fallback, which throws when the
  previous reading has no core \<open>i\<close>, and rounds \<open>(1 - idle / total) * 100\<close> with no test of
  \<open>total\<close>: a division by zero gives \<open>NaN\<close> or an infinity, which \<open>Math.round\<close> returns
  unchanged.
\<close>

datatype js_error = TypeError

datatype jsnumber = Number int | NaN | PlusInfinity | MinusInfinity

definition server_cpuDiff :: "cpu_times list \<Rightarrow> int \<times> int \<Rightarrow> nat \<times> cpu_times \<Rightarrow> int \<times> int" where
  "server_cpuDiff prevs acc ic =
     (let prev = prevs ! fst ic;
          curr = snd ic;
          idleDiff = idle curr - idle prev;
          totalDiff = total_ticks curr - total_ticks prev
      in (fst acc + idleDiff, snd acc + totalDiff))"

definition server_cpuUsage ::
  "cpu_times list \<Rightarrow> cpu_times list \<Rightarrow> js_error + (jsnumber \<times> cpu_times list)" where
  \<comment> \<open>\<open>prevs\<close> is \<open>lastCpu\<close> at the call; the result carries the new \<open>lastCpu\<close>\<close>
  "server_cpuUsage cpus prevs =
     (if length prevs < length cpus then Inl TypeError
      else
        (let diffs = foldl (server_cpuDiff prevs) (0, 0) (enumerate 0 cpus);
             idle_sum = fst diffs; total = snd diffs
         in Inr (if total \<noteq> 0
                   then Number (Math_round ((1 - of_int idle_sum / of_int total) * 100))
                 else if idle_sum = 0 then NaN
                 else if idle_sum > 0 then MinusInfinity
                 else PlusInfinity,
                 cpus)))"

section \<open>The health classifier\<close>

record health_status =
  status :: string
  color :: string

definition getHealthStatus :: "rat \<Rightarrow> rat \<Rightarrow> rat \<Rightarrow> health_status" where
  "getHealthStatus cpu_pct memPct diskPct =
     (if cpu_pct > 90 \<or> memPct > 90 \<or> diskPct > 95
        then \<lparr>status = ''CRITICAL'', color = ''#ef4444''\<rparr>
      else if cpu_pct > 70 \<or> memPct > 70 \<or> diskPct > 80
        then \<lparr>status = ''WARNING'', color = ''#f59e0b''\<rparr>
      else \<lparr>status = ''HEALTHY'', color = ''#22c55e''\<rparr>)"

section \<open>Metrics state and snapshot\<close>

text \<open>
  One snapshot, with the fields that depend on the request statistics, the CPU sampler and
  the health tier. The host description (names, versions, heap sizes, network interfaces)
  and the formatted durations and byte strings are left out.
\<close>

record snapshot =
  timestamp :: int
  health :: string
  healthColor :: string
  cpu :: int
  sysMemPercent :: rat
  diskPercent :: int
  processUptimeSec :: int
  totalRequests :: int
  rpm :: int
  rps :: rat
  rph :: int
  avgLifetimeRpm :: rat
  avgResponseMs :: int
  minResponseMs :: int
  maxResponseMs :: int
  snap_totalResponseTime :: int
  snap_errorCount :: int
  successCount :: int
  errorRate :: rat
  successRate :: rat
  snap_activeConnections :: int
  bytesReceivedRaw :: int
  bytesSentRaw :: int
  statusCodes :: "string \<rightharpoonup> int"
  endpoints :: "string \<rightharpoonup> int"

text \<open>
  The module's variables, followed by what the runtime holds for the event streams: the
  interval timers that are armed, the number the next timer gets, and the frames written,
  each with the timer number of the stream it went to. \<open>lastRequestTime\<close> is left out
  with the two snapshot fields that read it, and \<open>requestHistory\<close>, which nothing reads.
\<close>

record state =
  lastCpu :: "cpu_times list"
  requestCount :: int
  totalResponseTime :: int
  minResponseTime :: extnum
  maxResponseTime :: int
  errorCount :: int
  activeConnections :: int
  totalBytesReceived :: int
  totalBytesSent :: int
  statusCodeCounts :: "string \<rightharpoonup> int"
  requestsPerEndpoint :: "string \<rightharpoonup> int"
  lastMinuteRequests :: "int list"
  lastHourRequests :: "int list"
  timers :: "nat set"
  nextTimer :: nat
  written :: "(nat \<times> snapshot) list"

definition init :: "cpu_times list \<Rightarrow> state" where
  \<comment> \<open>the state at module load; \<open>boot\<close> is the \<open>os.cpus()\<close> reading taken there\<close>
  "init boot =
     \<lparr>lastCpu = boot, requestCount = 0, totalResponseTime = 0, minResponseTime = Infinity,
      maxResponseTime = 0, errorCount = 0, activeConnections = 0, totalBytesReceived = 0,
      totalBytesSent = 0, statusCodeCounts = Map.empty, requestsPerEndpoint = Map.empty,
      lastMinuteRequests = [], lastHourRequests = [], timers = {}, nextTimer = 0,
      written = []\<rparr>"

definition cpuUsage :: "cpu_times list \<Rightarrow> state \<Rightarrow> int \<times> state" where
  \<comment> \<open>\<open>cpus\<close> is what \<open>os.cpus()\<close> returns at the call\<close>
  "cpuUsage cpus s = (cpuPercent (lastCpu s) cpus, s\<lparr>lastCpu := cpus\<rparr>)"

definition cleanupOldRequests :: "int \<Rightarrow> state \<Rightarrow> state" where
  \<comment> \<open>\<open>now\<close> is \<open>Date.now()\<close> at the call\<close>
  "cleanupOldRequests now s =
     s\<lparr>lastMinuteRequests := filter (\<lambda>t. now - t < 60000) (lastMinuteRequests s),
       lastHourRequests := filter (\<lambda>t. now - t < 3600000) (lastHourRequests s)\<rparr>"

text \<open>What one call of \<open>getSnapshot\<close> reads from the host.\<close>

record host =
  now :: int
  cpus :: "cpu_times list"
  uptime :: rat
  totalmem :: int
  freemem :: int
  disk_percent :: int
  stamp :: int

definition getSnapshot :: "host \<Rightarrow> state \<Rightarrow> snapshot \<times> state" where
  "getSnapshot h s0 =
     (let s1 = cleanupOldRequests (now h) s0;
          sysMemUsed = totalmem h - freemem h;
          sampled = cpuUsage (cpus h) s1;
          cpu_pct = fst sampled;
          s = snd sampled;
          memPct = pct (of_int sysMemUsed) (of_int (totalmem h));
          hs = getHealthStatus (of_int cpu_pct) memPct (of_int (disk_percent h))
      in (\<lparr>timestamp = stamp h,
           health = status hs,
           healthColor = color hs,
           cpu = cpu_pct,
           sysMemPercent = memPct,
           diskPercent = disk_percent h,
           processUptimeSec = \<lfloor>uptime h\<rfloor>,
           totalRequests = requestCount s,
           rpm = int (length (lastMinuteRequests s)),
           rps = toFixed 2 (of_nat (length (lastMinuteRequests s)) / 60),
           rph = int (length (lastHourRequests s)),
           avgLifetimeRpm = toFixed 2 (of_int (requestCount s) / js_or (uptime h / 60) 1),
           avgResponseMs =
             (if requestCount s \<noteq> 0
              then Math_round (of_int (totalResponseTime s) / of_int (requestCount s)) else 0),
           minResponseMs = (case minResponseTime s of Infinity \<Rightarrow> 0 | Finite m \<Rightarrow> m),
           maxResponseMs = maxResponseTime s,
           snap_totalResponseTime = totalResponseTime s,
           snap_errorCount = errorCount s,
           successCount = requestCount s - errorCount s,
           errorRate = pct (of_int (errorCount s)) (of_int (requestCount s)),
           successRate = pct (of_int (requestCount s - errorCount s)) (of_int (requestCount s)),
           snap_activeConnections = activeConnections s,
           bytesReceivedRaw = totalBytesReceived s,
           bytesSentRaw = totalBytesSent s,
           statusCodes = statusCodeCounts s,
           endpoints = requestsPerEndpoint s\<rparr>, s))"

section \<open>The request handler and the event loop\<close>

text \<open>
  One incoming request with what the handler reads while it runs: the three clock readings
  at entry, the host readings of the snapshot it may build, the byte length of the body it
  writes, and the clock reading behind \<open>elapsed\<close>.
\<close>

record request =
  url :: string
  start :: int
  tMinute :: int
  tHour :: int
  env :: host
  bodyLen :: int
  finish :: int

definition bump :: "(string \<rightharpoonup> int) \<Rightarrow> string \<Rightarrow> (string \<rightharpoonup> int)" where
  \<comment> \<open>\<open>m[k] = (m[k] || 0) + 1\<close>\<close>
  "bump m k = m(k \<mapsto> (case m k of None \<Rightarrow> 0 | Some c \<Rightarrow> c) + 1)"

definition track_elapsed :: "int \<Rightarrow> state \<Rightarrow> state" where
  \<comment> \<open>the three updates that close the \<open>/\<close>, \<open>/api/snapshot\<close> and 404 branches\<close>
  "track_elapsed elapsed s =
     s\<lparr>totalResponseTime := totalResponseTime s + elapsed,
       minResponseTime := Math_min (minResponseTime s) elapsed,
       maxResponseTime := max (maxResponseTime s) elapsed\<rparr>"

definition sendData :: "nat \<Rightarrow> host \<Rightarrow> int \<Rightarrow> state \<Rightarrow> state" where
  \<comment> \<open>\<open>sendData\<close> of the stream with timer \<open>tid\<close>; \<open>len\<close> is the byte length of the JSON text\<close>
  "sendData tid h len s0 =
     (let built = getSnapshot h s0; s = snd built
      in s\<lparr>written := written s @ [(tid, fst built)],
           totalBytesSent := totalBytesSent s + (len + 8)\<rparr>)"

definition handler :: "request \<Rightarrow> state \<Rightarrow> state" where
  "handler r s0 =
     (let s1 = s0\<lparr>requestCount := requestCount s0 + 1,
                  lastMinuteRequests := lastMinuteRequests s0 @ [tMinute r],
                  lastHourRequests := lastHourRequests s0 @ [tHour r],
                  requestsPerEndpoint := bump (requestsPerEndpoint s0) (url r)\<rparr>
      in if url r = ''/'' \<or> url r = ''/dashboard'' then
           track_elapsed (finish r - start r)
             (s1\<lparr>totalBytesSent := totalBytesSent s1 + bodyLen r,
                 statusCodeCounts := bump (statusCodeCounts s1) ''200''\<rparr>)
         else if url r = ''/events'' then
           (let s2 = sendData (nextTimer s1) (env r) (bodyLen r)
                       (s1\<lparr>activeConnections := activeConnections s1 + 1\<rparr>)
            in s2\<lparr>timers := insert (nextTimer s2) (timers s2), nextTimer := nextTimer s2 + 1\<rparr>)
         else if url r = ''/api/snapshot'' then
           (let s2 = snd (getSnapshot (env r) s1)
            in track_elapsed (finish r - start r)
                 (s2\<lparr>totalBytesSent := totalBytesSent s2 + bodyLen r,
                     statusCodeCounts := bump (statusCodeCounts s2) ''200''\<rparr>))
         else if url r = ''/health'' then
           (let s2 = snd (getSnapshot (env r) s1)
            in s2\<lparr>totalBytesSent := totalBytesSent s2 + bodyLen r,
                  statusCodeCounts := bump (statusCodeCounts s2) ''200''\<rparr>)
         else
           track_elapsed (finish r - start r)
             (s1\<lparr>statusCodeCounts := bump (statusCodeCounts s1) ''404'',
                 errorCount := errorCount s1 + 1\<rparr>))"

text \<open>
  The callbacks the event loop runs: a request arrives; a request body ends after \<open>n\<close>
  bytes; the interval timer \<open>i\<close> fires; the connection of the stream with timer \<open>i\<close> closes.
  A timer fires only while it is armed, and a connection closes once: on any other
  \<open>Tick\<close> or \<open>Close\<close> nothing runs.
\<close>

datatype event =
    Incoming request
  | BodyEnd int
  | Tick nat host int
  | Close nat

fun step :: "state \<Rightarrow> event \<Rightarrow> state" where
  "step s (Incoming r) = handler r s"
| "step s (BodyEnd n) = s\<lparr>totalBytesReceived := totalBytesReceived s + n\<rparr>"
| "step s (Tick i h len) = (if i \<in> timers s then sendData i h len s else s)"
| "step s (Close i) =
     (if i \<in> timers s
      then s\<lparr>timers := timers s - {i}, activeConnections := activeConnections s - 1\<rparr>
      else s)"

definition run :: "state \<Rightarrow> event list \<Rightarrow> state" where
  "run s evs = foldl step s evs"

section \<open>Observations on a history\<close>

text \<open>
  A history is the list of callbacks the event loop has run since module load. The
  functions below read off a history what the properties speak about: the elapsed times
  that requests recorded, the number of requests to a path, the frames written to one
  stream.
\<close>

fun elapsed_of :: "event \<Rightarrow> int list" where
  \<comment> \<open>the elapsed time a callback hands to \<open>totalResponseTime\<close>, if it does\<close>
  "elapsed_of (Incoming r) =
     (if url r = ''/events'' \<or> url r = ''/health'' then [] else [finish r - start r])"
| "elapsed_of (BodyEnd n) = []"
| "elapsed_of (Tick i h len) = []"
| "elapsed_of (Close i) = []"

definition recorded :: "event list \<Rightarrow> int list" where
  "recorded evs = concat (map elapsed_of evs)"

fun is_incoming :: "event \<Rightarrow> bool" where
  "is_incoming (Incoming r) = True"
| "is_incoming (BodyEnd n) = False"
| "is_incoming (Tick i h len) = False"
| "is_incoming (Close i) = False"

fun is_request_to :: "string \<Rightarrow> event \<Rightarrow> bool" where
  "is_request_to u (Incoming r) = (url r = u)"
| "is_request_to u (BodyEnd n) = False"
| "is_request_to u (Tick i h len) = False"
| "is_request_to u (Close i) = False"

definition requests_to :: "string \<Rightarrow> event list \<Rightarrow> nat" where
  "requests_to u evs = length (filter (is_request_to u) evs)"

definition frames_of :: "nat \<Rightarrow> state \<Rightarrow> (nat \<times> snapshot) list" where
  \<comment> \<open>the frames written to the stream with timer \<open>i\<close>\<close>
  "frames_of i s = filter (\<lambda>f. fst f = i) (written s)"

fun changes_connections :: "event \<Rightarrow> bool" where
  \<comment> \<open>a stream opens or a connection closes\<close>
  "changes_connections (Incoming r) = (url r = ''/events'')"
| "changes_connections (BodyEnd n) = False"
| "changes_connections (Tick i h len) = False"
| "changes_connections (Close i) = True"

section \<open>Example inputs\<close>

definition core_a :: cpu_times where
  "core_a = \<lparr>user = 120, nice = 0, sys = 30, idle = 850, irq = 0\<rparr>"

definition core_b :: cpu_times where
  "core_b = \<lparr>user = 180, nice = 0, sys = 40, idle = 980, irq = 0\<rparr>"

definition core_c :: cpu_times where
  "core_c = \<lparr>user = 300, nice = 20, sys = 60, idle = 1500, irq = 5\<rparr>"

definition core_d :: cpu_times where
  "core_d = \<lparr>user = 320, nice = 21, sys = 61, idle = 1517, irq = 6\<rparr>"

definition host0 :: host where
  "host0 = \<lparr>now = 1000, cpus = [core_b], uptime = 30, totalmem = 8000, freemem = 6000,
            disk_percent = 40, stamp = 1000\<rparr>"

definition stream_req :: request where
  "stream_req = \<lparr>url = ''/events'', start = 1000, tMinute = 1000, tHour = 1000, env = host0,
                 bodyLen = 900, finish = 1000\<rparr>"

definition page_req :: request where
  "page_req = \<lparr>url = ''/'', start = 1000, tMinute = 1000, tHour = 1000, env = host0,
               bodyLen = 5000, finish = 1010\<rparr>"

definition api_req :: request where
  "api_req = \<lparr>url = ''/api/snapshot'', start = 1000, tMinute = 1000, tHour = 1000, env = host0,
              bodyLen = 1200, finish = 1020\<rparr>"

definition missing_req :: request where
  "missing_req = \<lparr>url = ''/nope'', start = 1000, tMinute = 1000, tHour = 1000, env = host0,
                  bodyLen = 0, finish = 1030\<rparr>"

definition three_requests :: "event list" where
  \<comment> \<open>statuses 200, 200, 404 with elapsed times 10, 20, 30\<close>
  "three_requests = [Incoming page_req, Incoming api_req, Incoming missing_req]"

definition stream_then_page :: "event list" where
  "stream_then_page = [Incoming stream_req, Incoming page_req]"

section \<open>Evaluating the arithmetic\<close>

lemma floor_numeral_div_rat:
  "\<lfloor>(numeral a / numeral b :: rat)\<rfloor> = numeral a div numeral b"
  using floor_divide_of_int_eq [of "numeral a" "numeral b", where ?'a = rat] by simp

lemma floor_neg_numeral_div_rat:
  "\<lfloor>(- numeral a / numeral b :: rat)\<rfloor> = - numeral a div numeral b"
  using floor_divide_of_int_eq [of "- numeral a" "numeral b", where ?'a = rat] by simp

lemmas js_eval =
  Math_round_def toFixed_def pct_def js_or_def floor_numeral_div_rat floor_neg_numeral_div_rat

lemmas examples =
  host0_def stream_req_def page_req_def api_req_def missing_req_def core_a_def core_b_def
  three_requests_def

section \<open>What one callback changes\<close>

lemma getSnapshot_state:
  "snd (getSnapshot h s) = (cleanupOldRequests (now h) s)\<lparr>lastCpu := cpus h\<rparr>"
  by (simp add: getSnapshot_def Let_def cpuUsage_def)

lemmas snapshot_unfold = getSnapshot_def Let_def cpuUsage_def cleanupOldRequests_def

lemmas other_unfold = sendData_def Let_def getSnapshot_state cleanupOldRequests_def

lemmas handler_unfold = handler_def track_elapsed_def other_unfold

lemma run_Nil: "run s [] = s"
  by (simp add: run_def)

lemma run_Cons: "run s (e # evs) = run (step s e) evs"
  by (simp add: run_def)

lemma run_snoc: "run s (evs @ [e]) = step (run s evs) e"
  by (simp add: run_def)

lemma init_fields:
  "requestCount (init boot) = 0" "totalResponseTime (init boot) = 0"
  "errorCount (init boot) = 0" "minResponseTime (init boot) = Infinity"
  "maxResponseTime (init boot) = 0" "lastCpu (init boot) = boot"
  "lastMinuteRequests (init boot) = []" "lastHourRequests (init boot) = []"
  by (simp_all add: init_def)

lemma requestCount_handler: "requestCount (handler r s) = requestCount s + 1"
  by (simp add: handler_unfold)

lemma totalResponseTime_handler:
  "totalResponseTime (handler r s) = totalResponseTime s + sum_list (elapsed_of (Incoming r))"
  by (simp add: handler_unfold)

lemma errorCount_handler:
  "errorCount (handler r s) = errorCount s \<or> errorCount (handler r s) = errorCount s + 1"
  by (simp add: handler_unfold)

lemma minResponseTime_handler:
  "minResponseTime (handler r s) =
     (case elapsed_of (Incoming r) of [] \<Rightarrow> minResponseTime s
      | e # _ \<Rightarrow> Math_min (minResponseTime s) e)"
  by (simp add: handler_unfold)

lemma maxResponseTime_handler:
  "maxResponseTime (handler r s) =
     (case elapsed_of (Incoming r) of [] \<Rightarrow> maxResponseTime s
      | e # _ \<Rightarrow> max (maxResponseTime s) e)"
  by (simp add: handler_unfold)

lemma activeConnections_handler:
  "activeConnections (handler r s) =
     (if url r = ''/events'' then activeConnections s + 1 else activeConnections s)"
  by (simp add: handler_unfold)

lemma timers_handler:
  "timers (handler r s) =
     (if url r = ''/events'' then insert (nextTimer s) (timers s) else timers s)"
  by (simp add: handler_unfold)

lemma nextTimer_handler:
  "nextTimer (handler r s) = (if url r = ''/events'' then nextTimer s + 1 else nextTimer s)"
  by (simp add: handler_unfold)

lemma written_handler:
  "\<exists>snap. written (handler r s) =
     (if url r = ''/events'' then written s @ [(nextTimer s, snap)] else written s)"
  by (simp add: handler_unfold)

lemma windows_handler:
  "lastMinuteRequests (handler r s) =
     (if url r = ''/events'' \<or> url r = ''/api/snapshot'' \<or> url r = ''/health''
      then filter (\<lambda>t. now (env r) - t < 60000) (lastMinuteRequests s @ [tMinute r])
      else lastMinuteRequests s @ [tMinute r])"
  "lastHourRequests (handler r s) =
     (if url r = ''/events'' \<or> url r = ''/api/snapshot'' \<or> url r = ''/health''
      then filter (\<lambda>t. now (env r) - t < 3600000) (lastHourRequests s @ [tHour r])
      else lastHourRequests s @ [tHour r])"
  by (simp_all add: handler_unfold)

lemma sendData_runtime:
  "timers (sendData j h len s) = timers s"
  "nextTimer (sendData j h len s) = nextTimer s"
  "activeConnections (sendData j h len s) = activeConnections s"
  "written (sendData j h len s) = written s @ [(j, fst (getSnapshot h s))]"
  by (simp_all add: other_unfold)

lemma requestCount_step:
  "requestCount (step s e) = requestCount s + (if is_incoming e then 1 else 0)"
  by (cases e) (simp_all add: requestCount_handler other_unfold)

lemma totalResponseTime_step:
  "totalResponseTime (step s e) = totalResponseTime s + sum_list (elapsed_of e)"
  by (cases e) (simp_all add: totalResponseTime_handler other_unfold)

lemma errorCount_step:
  "errorCount (step s e) = errorCount s
   \<or> (is_incoming e \<and> errorCount (step s e) = errorCount s + 1)"
  using errorCount_handler by (cases e) (simp_all add: other_unfold)

lemma minResponseTime_step:
  "minResponseTime (step s e) =
     (case elapsed_of e of [] \<Rightarrow> minResponseTime s | x # _ \<Rightarrow> Math_min (minResponseTime s) x)"
  by (cases e) (simp_all add: minResponseTime_handler other_unfold del: elapsed_of.simps(1))

lemma maxResponseTime_step:
  "maxResponseTime (step s e) =
     (case elapsed_of e of [] \<Rightarrow> maxResponseTime s | x # _ \<Rightarrow> max (maxResponseTime s) x)"
  by (cases e) (simp_all add: maxResponseTime_handler other_unfold del: elapsed_of.simps(1))

section \<open>The CPU sampler: unchanged counters\<close>

lemma foldl_cpuDiff_same:
  "\<forall>k < length xs. n + k < length prevs \<and> prevs ! (n + k) = xs ! k \<Longrightarrow>
   foldl (cpuDiff prevs) acc (enumerate n xs) = acc"
proof (induction xs arbitrary: n acc)
  case Nil
  then show ?case by simp
next
  case (Cons x xs)
  from Cons.prems have first: "n < length prevs \<and> prevs ! n = x" by force
  have rest: "\<forall>k < length xs. Suc n + k < length prevs \<and> prevs ! (Suc n + k) = xs ! k"
  proof (intro allI impI)
    fix k assume "k < length xs"
    then have "Suc k < length (x # xs)" by simp
    with Cons.prems have "n + Suc k < length prevs \<and> prevs ! (n + Suc k) = (x # xs) ! Suc k"
      by blast
    then show "Suc n + k < length prevs \<and> prevs ! (Suc n + k) = xs ! k" by simp
  qed
  have "cpuDiff prevs acc (n, x) = acc"
    using first by (simp add: cpuDiff_def)
  then show ?case using Cons.IH [OF rest] by simp
qed

lemma foldl_server_cpuDiff_same:
  "\<forall>k < length xs. prevs ! (n + k) = xs ! k \<Longrightarrow>
   foldl (server_cpuDiff prevs) acc (enumerate n xs) = acc"
proof (induction xs arbitrary: n acc)
  case Nil
  then show ?case by simp
next
  case (Cons x xs)
  from Cons.prems have first: "prevs ! n = x" by force
  have rest: "\<forall>k < length xs. prevs ! (Suc n + k) = xs ! k"
  proof (intro allI impI)
    fix k assume "k < length xs"
    then have "Suc k < length (x # xs)" by simp
    with Cons.prems have "prevs ! (n + Suc k) = (x # xs) ! Suc k" by blast
    then show "prevs ! (Suc n + k) = xs ! k" by simp
  qed
  have "server_cpuDiff prevs acc (n, x) = acc"
    using first by (simp add: server_cpuDiff_def)
  then show ?case using Cons.IH [OF rest] by simp
qed

lemma foldl_cpuDiff_no_previous:
  "foldl (cpuDiff []) acc (enumerate n xs) = acc"
  by (induction xs arbitrary: n acc) (simp_all add: cpuDiff_def)

lemma cpuPercent_same: "cpuPercent c c = 0"
proof -
  have "foldl (cpuDiff c) (0, 0) (enumerate 0 c) = (0, 0)"
    by (rule foldl_cpuDiff_same) simp
  then show ?thesis by (simp add: cpuPercent_def)
qed

lemma cpuPercent_no_previous: "cpuPercent [] c = 0"
  by (simp add: cpuPercent_def foldl_cpuDiff_no_previous)

lemma server_cpuUsage_same: "server_cpuUsage c c = Inr (NaN, c)"
proof -
  have "foldl (server_cpuDiff c) (0, 0) (enumerate 0 c) = (0, 0)"
    by (rule foldl_server_cpuDiff_same) simp
  then show ?thesis by (simp add: server_cpuUsage_def)
qed

lemma server_cpuUsage_stores:
  "server_cpuUsage c prevs = Inr (p, l) \<Longrightarrow> l = c"
  by (auto simp: server_cpuUsage_def Let_def split: if_splits)

text \<open>
  C7. Two calls of the CPU sampler in a row, the operating system reporting the same tick
  counters \<open>c\<close> to both: the second call returns 0, whatever the state before the first
  one was, because a total difference of zero is answered with 0 and nothing is divided.
  The sampler of \<open>src/server.js\<close> has no such test: where its first call returns, its
  second call divides zero by zero and returns \<open>NaN\<close>.
\<close>

theorem cpuUsage_twice_unchanged:
  "fst (cpuUsage c (snd (cpuUsage c s))) = 0
   \<and> (server_cpuUsage c prevs = Inr (p, l) \<longrightarrow> server_cpuUsage c l = Inr (NaN, c))"
proof
  show "fst (cpuUsage c (snd (cpuUsage c s))) = 0"
    by (simp add: cpuUsage_def cpuPercent_same)
  show "server_cpuUsage c prevs = Inr (p, l) \<longrightarrow> server_cpuUsage c l = Inr (NaN, c)"
    using server_cpuUsage_stores [of c prevs p l] server_cpuUsage_same [of c] by auto
qed

theorem cpuUsage_twice_unchanged_witness:
  "fst (cpuUsage [core_b] (snd (cpuUsage [core_b] (init [core_a])))) = 0
   \<and> server_cpuUsage [core_b] [core_a] = Inr (Number 35, [core_b])
   \<and> server_cpuUsage [core_b] [core_b] = Inr (NaN, [core_b])"
proof -
  have first: "server_cpuUsage [core_b] [core_a] = Inr (Number 35, [core_b])"
    by (simp add: server_cpuUsage_def server_cpuDiff_def total_ticks_def core_a_def core_b_def
        js_eval)
  from cpuUsage_twice_unchanged [of "[core_b]" "init [core_a]" "[core_a]" "Number 35" "[core_b]"]
  show ?thesis using first by simp
qed

text \<open>
  C8. The health classifier answers CRITICAL exactly when \<open>cpu > 90\<close> or \<open>mem > 90\<close> or
  \<open>disk > 95\<close>; otherwise WARNING exactly when \<open>cpu > 70\<close> or \<open>mem > 70\<close> or \<open>disk > 80\<close>;
  otherwise HEALTHY. So \<open>(95, 10, 10)\<close> is CRITICAL, \<open>(75, 10, 10)\<close> is WARNING and
  \<open>(10, 10, 10)\<close> is HEALTHY.
\<close>

theorem getHealthStatus_tiers:
  "(status (getHealthStatus c m d) = ''CRITICAL'' \<longleftrightarrow> c > 90 \<or> m > 90 \<or> d > 95)
   \<and> (status (getHealthStatus c m d) = ''WARNING'' \<longleftrightarrow>
        \<not> (c > 90 \<or> m > 90 \<or> d > 95) \<and> (c > 70 \<or> m > 70 \<or> d > 80))
   \<and> (status (getHealthStatus c m d) = ''HEALTHY'' \<longleftrightarrow>
        \<not> (c > 90 \<or> m > 90 \<or> d > 95) \<and> \<not> (c > 70 \<or> m > 70 \<or> d > 80))
   \<and> status (getHealthStatus 95 10 10) = ''CRITICAL''
   \<and> status (getHealthStatus 75 10 10) = ''WARNING''
   \<and> status (getHealthStatus 10 10 10) = ''HEALTHY''"
  by (simp add: getHealthStatus_def)

section \<open>Counters over a history\<close>

lemma requestCount_run:
  "requestCount (run s evs) = requestCount s + int (length (filter is_incoming evs))"
  by (induction evs rule: rev_induct) (simp_all add: run_Nil run_snoc requestCount_step)

lemma totalResponseTime_run:
  "totalResponseTime (run s evs) = totalResponseTime s + sum_list (recorded evs)"
  by (induction evs rule: rev_induct)
     (simp_all add: run_Nil run_snoc totalResponseTime_step recorded_def)

lemma incoming_split:
  "length (filter is_incoming evs) =
     length (recorded evs) + requests_to ''/events'' evs + requests_to ''/health'' evs"
proof (induction evs)
  case Nil
  then show ?case by (simp add: recorded_def requests_to_def)
next
  case (Cons e evs)
  then show ?case by (cases e) (auto simp: recorded_def requests_to_def)
qed

lemma errorCount_run_le:
  "errorCount s \<le> requestCount s \<Longrightarrow> errorCount (run s evs) \<le> requestCount (run s evs)"
proof (induction evs rule: rev_induct)
  case Nil
  then show ?case by (simp add: run_Nil)
next
  case (snoc e evs)
  then have "errorCount (run s evs) \<le> requestCount (run s evs)" by simp
  then show ?case
    using errorCount_step [of "run s evs" e] requestCount_step [of "run s evs" e]
    by (auto simp: run_snoc split: if_splits)
qed

lemma errorCount_run_nonneg:
  "0 \<le> errorCount s \<Longrightarrow> 0 \<le> errorCount (run s evs)"
proof (induction evs rule: rev_induct)
  case Nil
  then show ?case by (simp add: run_Nil)
next
  case (snoc e evs)
  then have "0 \<le> errorCount (run s evs)" by simp
  then show ?case
    using errorCount_step [of "run s evs" e] by (auto simp: run_snoc)
qed

lemma extremes_run:
  "(recorded evs = [] \<longrightarrow>
      minResponseTime (run s evs) = minResponseTime s
      \<and> maxResponseTime (run s evs) = maxResponseTime s)
   \<and> (recorded evs \<noteq> [] \<longrightarrow>
      ext_le (minResponseTime (run s evs)) (maxResponseTime (run s evs)))"
proof (induction evs rule: rev_induct)
  case Nil
  then show ?case by (simp add: run_Nil recorded_def)
next
  case (snoc e evs)
  show ?case
  proof (cases "elapsed_of e")
    case Nil
    then have "recorded (evs @ [e]) = recorded evs" by (simp add: recorded_def)
    with Nil snoc show ?thesis
      by (simp add: run_snoc minResponseTime_step maxResponseTime_step)
  next
    case (Cons x xs)
    then have ne: "recorded (evs @ [e]) \<noteq> []" by (simp add: recorded_def)
    have "ext_le (Math_min (minResponseTime (run s evs)) x)
            (max (maxResponseTime (run s evs)) x)"
      by (cases "minResponseTime (run s evs)") auto
    with Cons ne show ?thesis
      by (simp add: run_snoc minResponseTime_step maxResponseTime_step)
  qed
qed

lemma counters_three_requests:
  "requestCount (run (init []) three_requests) = 3"
  "errorCount (run (init []) three_requests) = 1"
  "totalResponseTime (run (init []) three_requests) = 60"
  by (simp_all add: run_def handler_unfold init_def examples)

section \<open>The average response time\<close>

lemma avgResponseMs_getSnapshot:
  "avgResponseMs (fst (getSnapshot h s)) =
     (if requestCount s \<noteq> 0
      then Math_round (of_int (totalResponseTime s) / of_int (requestCount s)) else 0)"
  by (simp add: snapshot_unfold)

text \<open>
  C1, as the code has it. Take a history with no request to \<open>/health\<close>; let \<open>e_1..e_N\<close> be
  the elapsed times its requests recorded (those to \<open>/\<close>, \<open>/dashboard\<close>, \<open>/api/snapshot\<close> and
  to unknown paths) and \<open>S\<close> the number of its requests to \<open>/events\<close>, which open a stream
  and record no elapsed time. Then \<open>totalRequests\<close> is \<open>N + S\<close>, and \<open>avgResponseMs\<close> is
  \<open>round((e_1 + ... + e_N) / (N + S))\<close>, or 0 when \<open>N + S = 0\<close>: the divisor is the number of
  all requests. With no request to \<open>/events\<close> and \<open>N \<ge> 1\<close> it is \<open>round((e_1 + ... + e_N) / N)\<close>.
  In any state, a snapshot whose \<open>totalRequests\<close> is 0 has \<open>avgResponseMs\<close> 0.
\<close>

theorem avgResponseMs_all_requests:
  "(requests_to ''/health'' evs = 0 \<longrightarrow>
     totalRequests (fst (getSnapshot h (run (init boot) evs)))
       = int (length (recorded evs) + requests_to ''/events'' evs)
     \<and> avgResponseMs (fst (getSnapshot h (run (init boot) evs))) =
        (if length (recorded evs) + requests_to ''/events'' evs = 0 then 0
         else Math_round (of_int (sum_list (recorded evs))
                / of_nat (length (recorded evs) + requests_to ''/events'' evs)))
     \<and> (requests_to ''/events'' evs = 0 \<and> recorded evs \<noteq> [] \<longrightarrow>
          avgResponseMs (fst (getSnapshot h (run (init boot) evs))) =
          Math_round (of_int (sum_list (recorded evs)) / of_nat (length (recorded evs)))))
   \<and> (totalRequests (fst (getSnapshot h s)) = 0 \<longrightarrow> avgResponseMs (fst (getSnapshot h s)) = 0)"
proof (rule conjI)
  show "totalRequests (fst (getSnapshot h s)) = 0 \<longrightarrow> avgResponseMs (fst (getSnapshot h s)) = 0"
    by (simp add: snapshot_unfold)
next
  let ?s = "run (init boot) evs"
  let ?n = "length (recorded evs) + requests_to ''/events'' evs"
  show "requests_to ''/health'' evs = 0 \<longrightarrow>
     totalRequests (fst (getSnapshot h ?s)) = int ?n
     \<and> avgResponseMs (fst (getSnapshot h ?s)) =
        (if ?n = 0 then 0 else Math_round (of_int (sum_list (recorded evs)) / of_nat ?n))
     \<and> (requests_to ''/events'' evs = 0 \<and> recorded evs \<noteq> [] \<longrightarrow>
          avgResponseMs (fst (getSnapshot h ?s)) =
          Math_round (of_int (sum_list (recorded evs)) / of_nat (length (recorded evs))))"
  proof
    assume nh: "requests_to ''/health'' evs = 0"
    have rc: "requestCount ?s = int ?n"
      using nh by (simp add: requestCount_run incoming_split init_fields)
    have tot: "totalResponseTime ?s = sum_list (recorded evs)"
      by (simp add: totalResponseTime_run init_fields)
    have total: "totalRequests (fst (getSnapshot h ?s)) = int ?n"
      using rc by (simp add: snapshot_unfold)
    have avg: "avgResponseMs (fst (getSnapshot h ?s)) =
          (if ?n = 0 then 0 else Math_round (of_int (sum_list (recorded evs)) / of_nat ?n))"
    proof (cases "?n = 0")
      case True
      then show ?thesis unfolding avgResponseMs_getSnapshot rc tot by simp
    next
      case False
      then have "int ?n \<noteq> 0" by linarith
      moreover have "(of_int (int ?n) :: rat) = of_nat ?n" by simp
      ultimately show ?thesis
        unfolding avgResponseMs_getSnapshot rc tot using False by presburger
    qed
    have part: "requests_to ''/events'' evs = 0 \<and> recorded evs \<noteq> [] \<longrightarrow>
            avgResponseMs (fst (getSnapshot h ?s)) =
            Math_round (of_int (sum_list (recorded evs)) / of_nat (length (recorded evs)))"
      unfolding avg by simp
    from total avg part show "totalRequests (fst (getSnapshot h ?s)) = int ?n
       \<and> avgResponseMs (fst (getSnapshot h ?s)) =
          (if ?n = 0 then 0 else Math_round (of_int (sum_list (recorded evs)) / of_nat ?n))
       \<and> (requests_to ''/events'' evs = 0 \<and> recorded evs \<noteq> [] \<longrightarrow>
            avgResponseMs (fst (getSnapshot h ?s)) =
            Math_round (of_int (sum_list (recorded evs)) / of_nat (length (recorded evs))))"
      by blast
  qed
qed

text \<open>
  Three requests answered 200, 200 and 404 after 10, 20 and 30 ms average to 20 ms; a
  stream opened before a page served in 10 ms halves the average.
\<close>

theorem avgResponseMs_all_requests_witness:
  "requests_to ''/health'' three_requests = 0
   \<and> requests_to ''/events'' three_requests = 0
   \<and> recorded three_requests = [10, 20, 30]
   \<and> totalRequests (fst (getSnapshot host0 (run (init []) three_requests))) = 3
   \<and> avgResponseMs (fst (getSnapshot host0 (run (init []) three_requests))) = 20
   \<and> requests_to ''/health'' stream_then_page = 0
   \<and> totalRequests (fst (getSnapshot host0 (run (init []) stream_then_page))) = 2
   \<and> avgResponseMs (fst (getSnapshot host0 (run (init []) stream_then_page))) = 5
   \<and> totalRequests (fst (getSnapshot host0 (init []))) = 0
   \<and> avgResponseMs (fst (getSnapshot host0 (init []))) = 0"
proof -
  have zero: "totalRequests (fst (getSnapshot host0 (init []))) = 0"
    by (simp add: snapshot_unfold init_def)
  from avgResponseMs_all_requests [of three_requests host0 "[]" "init []"]
    avgResponseMs_all_requests [of stream_then_page host0 "[]" "init []"] zero
  show ?thesis
    by (simp add: requests_to_def recorded_def stream_then_page_def examples js_eval)
qed

text \<open>
  The average over the recorded elapsed times alone is not what the snapshot shows once a
  stream has been opened: one request to \<open>/events\<close>, then one page served in 10 ms. One
  elapsed time is recorded, its average is 10, and \<open>avgResponseMs\<close> is 5.
\<close>

theorem avgResponseMs_counterexample:
  "recorded stream_then_page = [10]
   \<and> Math_round (of_int (sum_list (recorded stream_then_page))
        / of_nat (length (recorded stream_then_page))) = 10
   \<and> avgResponseMs (fst (getSnapshot host0 (run (init []) stream_then_page))) = 5
   \<and> avgResponseMs (fst (getSnapshot host0 (run (init []) stream_then_page)))
       \<noteq> Math_round (of_int (sum_list (recorded stream_then_page))
            / of_nat (length (recorded stream_then_page)))"
  by (simp add: recorded_def avgResponseMs_getSnapshot run_Cons run_Nil requestCount_handler
      totalResponseTime_handler init_fields stream_then_page_def examples js_eval)

section \<open>The response time extremes\<close>

text \<open>
  C3, as the code has it. In every state reached from module load, once at least one
  request has recorded its elapsed time the stored minimum is at most the stored maximum.
  A history whose requests all went to \<open>/events\<close> leaves the minimum at \<open>Infinity\<close> and the
  maximum at 0, however many requests it counts.
\<close>

theorem extremes_ordered_once_recorded:
  "(recorded evs \<noteq> [] \<longrightarrow>
      ext_le (minResponseTime (run (init boot) evs)) (maxResponseTime (run (init boot) evs)))
   \<and> (requests_to ''/health'' evs = 0 \<and> recorded evs = [] \<longrightarrow>
      requestCount (run (init boot) evs) = int (requests_to ''/events'' evs)
      \<and> minResponseTime (run (init boot) evs) = Infinity
      \<and> maxResponseTime (run (init boot) evs) = 0)"
proof (intro conjI impI)
  assume "recorded evs \<noteq> []"
  then show "ext_le (minResponseTime (run (init boot) evs))
      (maxResponseTime (run (init boot) evs))"
    using extremes_run [of evs "init boot"] by simp
next
  assume none: "requests_to ''/health'' evs = 0 \<and> recorded evs = []"
  then show "requestCount (run (init boot) evs) = int (requests_to ''/events'' evs)"
    by (simp add: requestCount_run incoming_split init_fields)
  from none show "minResponseTime (run (init boot) evs) = Infinity"
    and "maxResponseTime (run (init boot) evs) = 0"
    using extremes_run [of evs "init boot"] by (simp_all add: init_fields)
qed

theorem extremes_ordered_once_recorded_witness:
  "recorded three_requests \<noteq> []
   \<and> ext_le (minResponseTime (run (init []) three_requests))
        (maxResponseTime (run (init []) three_requests))
   \<and> requests_to ''/health'' [Incoming stream_req] = 0
   \<and> recorded [Incoming stream_req] = []
   \<and> requestCount (run (init []) [Incoming stream_req]) = 1
   \<and> minResponseTime (run (init []) [Incoming stream_req]) = Infinity
   \<and> maxResponseTime (run (init []) [Incoming stream_req]) = 0"
  using extremes_ordered_once_recorded [of three_requests "[]"]
    extremes_ordered_once_recorded [of "[Incoming stream_req]" "[]"]
  by (simp add: recorded_def requests_to_def examples)

text \<open>
  After a single request to \<open>/events\<close> one request is counted, and the stored minimum,
  \<open>Infinity\<close>, is above the stored maximum, 0.
\<close>

theorem extremes_counterexample:
  "requestCount (run (init []) [Incoming stream_req]) = 1
   \<and> minResponseTime (run (init []) [Incoming stream_req]) = Infinity
   \<and> maxResponseTime (run (init []) [Incoming stream_req]) = 0
   \<and> \<not> ext_le (minResponseTime (run (init []) [Incoming stream_req]))
              (maxResponseTime (run (init []) [Incoming stream_req]))"
  by (simp add: run_Cons run_Nil requestCount_handler minResponseTime_handler
      maxResponseTime_handler init_fields stream_req_def)

section \<open>Success and error rates\<close>

lemma rates_getSnapshot:
  "successRate (fst (getSnapshot h s)) =
     pct (of_int (requestCount s - errorCount s)) (of_int (requestCount s))"
  "errorRate (fst (getSnapshot h s)) = pct (of_int (errorCount s)) (of_int (requestCount s))"
  "successCount (fst (getSnapshot h s)) = requestCount s - errorCount s"
  by (simp_all add: snapshot_unfold)

lemma toFixed_1_bounds:
  assumes "0 \<le> x" "x \<le> 100"
  shows "0 \<le> toFixed 1 x \<and> toFixed 1 x \<le> 100"
proof -
  have lo: "0 \<le> \<lfloor>x * 10 + 1 / 2\<rfloor>"
    using assms by simp
  have "x * 10 + 1 / 2 < 1001" using assms by simp
  then have "\<lfloor>x * 10 + 1 / 2\<rfloor> < 1001"
    by (simp add: floor_less_iff)
  then have hi: "\<lfloor>x * 10 + 1 / 2\<rfloor> \<le> 1000" by simp
  have "(of_int \<lfloor>x * 10 + 1 / 2\<rfloor> :: rat) \<le> of_int 1000"
    using hi by (simp only: of_int_le_iff)
  then have "(of_int \<lfloor>x * 10 + 1 / 2\<rfloor> :: rat) / 10 \<le> 100" by simp
  moreover have "0 \<le> (of_int \<lfloor>x * 10 + 1 / 2\<rfloor> :: rat) / 10"
    using lo by simp
  ultimately show ?thesis using assms by (simp add: toFixed_def)
qed

lemma pct_bounds:
  assumes "0 \<le> a" "a \<le> b"
  shows "0 \<le> pct a b \<and> pct a b \<le> 100"
proof (cases "b = 0")
  case True
  then show ?thesis by (simp add: pct_def)
next
  case False
  with assms have pos: "0 < b" by simp
  have "0 \<le> a / b * 100" using assms pos by simp
  moreover have "a / b \<le> 1" using assms pos by simp
  then have "a / b * 100 \<le> 1 * 100" by (intro mult_right_mono) simp_all
  then have "a / b * 100 \<le> 100" by (simp only: mult_1)
  ultimately show ?thesis using False toFixed_1_bounds [of "a / b * 100"]
    by (simp add: pct_def)
qed

lemma pct_nonzero:
  assumes "b \<noteq> 0"
  shows "pct a b = toFixed 1 (100 * a / b)"
proof -
  have "(a / b) * 100 = 100 * a / b" by simp
  moreover have "pct a b = toFixed 1 ((a / b) * 100)" using assms by (simp add: pct_def)
  ultimately show ?thesis by (simp only:)
qed

lemma toFixed_1_close: "\<bar>toFixed 1 x - x\<bar> \<le> 1 / 20"
proof (cases "x < 0")
  case False
  define n where "n = \<lfloor>x * 10 + 1 / 2\<rfloor>"
  have "of_int n \<le> x * 10 + 1 / 2" "x * 10 + 1 / 2 < of_int n + 1"
    unfolding n_def by linarith+
  then have "\<bar>of_int n / 10 - x\<bar> \<le> 1 / 20" by linarith
  then show ?thesis using False by (simp add: toFixed_def n_def)
next
  case True
  define n where "n = \<lfloor>(- x) * 10 + 1 / 2\<rfloor>"
  have "of_int n \<le> (- x) * 10 + 1 / 2" "(- x) * 10 + 1 / 2 < of_int n + 1"
    unfolding n_def by linarith+
  then have "\<bar>- (of_int n / 10) - x\<bar> \<le> 1 / 20" by linarith
  then show ?thesis using True by (simp add: toFixed_def n_def)
qed

lemma toFixed_1_tenths: "\<exists>n::int. toFixed 1 x = of_int n / 10"
proof (cases "x < 0")
  case False
  then show ?thesis by (auto simp: toFixed_def)
next
  case True
  have "toFixed 1 x = - (of_int \<lfloor>(- x) * 10 + 1 / 2\<rfloor> / 10)"
    using True by (simp add: toFixed_def)
  also have "\<dots> = (of_int (- \<lfloor>(- x) * 10 + 1 / 2\<rfloor>) :: rat) / 10"
    by simp
  finally show ?thesis by (rule exI)
qed

text \<open>
  C10. In every state reached from module load, \<open>errorCount\<close> is at most \<open>totalRequests\<close>:
  a callback that adds one to \<open>errorCount\<close> has added one to \<open>requestCount\<close> first. So the
  snapshot's \<open>successCount\<close> is never negative, and \<open>successRate\<close> and \<open>errorRate\<close> lie
  between 0 and 100.
\<close>

theorem errors_within_requests:
  "errorCount (run (init boot) evs) \<le> requestCount (run (init boot) evs)
   \<and> 0 \<le> successCount (fst (getSnapshot h (run (init boot) evs)))
   \<and> 0 \<le> successRate (fst (getSnapshot h (run (init boot) evs)))
   \<and> successRate (fst (getSnapshot h (run (init boot) evs))) \<le> 100
   \<and> 0 \<le> errorRate (fst (getSnapshot h (run (init boot) evs)))
   \<and> errorRate (fst (getSnapshot h (run (init boot) evs))) \<le> 100"
proof -
  let ?s = "run (init boot) evs"
  have le: "errorCount ?s \<le> requestCount ?s"
    by (rule errorCount_run_le) (simp add: init_fields)
  have nonneg: "0 \<le> errorCount ?s"
    by (rule errorCount_run_nonneg) (simp add: init_fields)
  have e: "0 \<le> pct (of_int (errorCount ?s)) (of_int (requestCount ?s))
           \<and> pct (of_int (errorCount ?s)) (of_int (requestCount ?s)) \<le> 100"
    using le nonneg by (intro pct_bounds) simp_all
  have s: "0 \<le> pct (of_int (requestCount ?s - errorCount ?s)) (of_int (requestCount ?s))
           \<and> pct (of_int (requestCount ?s - errorCount ?s)) (of_int (requestCount ?s)) \<le> 100"
    using le nonneg by (intro pct_bounds) simp_all
  show ?thesis using le e s by (simp add: rates_getSnapshot)
qed

text \<open>
  C2, as the code has it. For every state of the counters: when \<open>totalRequests > 0\<close>,
  \<open>successRate\<close> is \<open>100 * (totalRequests - errorCount) / totalRequests\<close> rounded to one
  decimal (a multiple of one tenth, at most half a tenth away) and \<open>errorRate\<close> is
  \<open>100 * errorCount / totalRequests\<close> rounded likewise; when \<open>totalRequests = 0\<close>, both are 0.
\<close>

theorem rates_one_decimal:
  "(requestCount s > 0 \<longrightarrow>
      \<bar>successRate (fst (getSnapshot h s))
         - 100 * of_int (requestCount s - errorCount s) / of_int (requestCount s)\<bar> \<le> 1 / 20
      \<and> (\<exists>n::int. successRate (fst (getSnapshot h s)) = of_int n / 10)
      \<and> \<bar>errorRate (fst (getSnapshot h s))
         - 100 * of_int (errorCount s) / of_int (requestCount s)\<bar> \<le> 1 / 20
      \<and> (\<exists>n::int. errorRate (fst (getSnapshot h s)) = of_int n / 10))
   \<and> (requestCount s = 0 \<longrightarrow>
      successRate (fst (getSnapshot h s)) = 0 \<and> errorRate (fst (getSnapshot h s)) = 0)"
proof (intro conjI impI)
  assume pos: "requestCount s > 0"
  then have nz: "(of_int (requestCount s) :: rat) \<noteq> 0" by simp
  have "successRate (fst (getSnapshot h s)) =
          toFixed 1 (100 * of_int (requestCount s - errorCount s) / of_int (requestCount s))"
    by (simp only: rates_getSnapshot pct_nonzero [OF nz])
  then show "\<bar>successRate (fst (getSnapshot h s))
         - 100 * of_int (requestCount s - errorCount s) / of_int (requestCount s)\<bar> \<le> 1 / 20"
    and "\<exists>n::int. successRate (fst (getSnapshot h s)) = of_int n / 10"
    using toFixed_1_close toFixed_1_tenths by simp_all
  have "errorRate (fst (getSnapshot h s)) =
          toFixed 1 (100 * of_int (errorCount s) / of_int (requestCount s))"
    by (simp only: rates_getSnapshot pct_nonzero [OF nz])
  then show "\<bar>errorRate (fst (getSnapshot h s))
         - 100 * of_int (errorCount s) / of_int (requestCount s)\<bar> \<le> 1 / 20"
    and "\<exists>n::int. errorRate (fst (getSnapshot h s)) = of_int n / 10"
    using toFixed_1_close toFixed_1_tenths by simp_all
next
  assume "requestCount s = 0"
  then show "successRate (fst (getSnapshot h s)) = 0" "errorRate (fst (getSnapshot h s)) = 0"
    by (simp_all add: rates_getSnapshot pct_def)
qed

text \<open>
  After the three requests answered 200, 200 and 404 the rates are 66.7 and 33.3; at
  module load both are 0.
\<close>

theorem rates_one_decimal_witness:
  "0 < requestCount (run (init []) three_requests)
   \<and> \<bar>successRate (fst (getSnapshot host0 (run (init []) three_requests))) - 100 * 2 / 3\<bar>
       \<le> 1 / 20
   \<and> successRate (fst (getSnapshot host0 (run (init []) three_requests))) = 667 / 10
   \<and> errorRate (fst (getSnapshot host0 (run (init []) three_requests))) = 333 / 10
   \<and> requestCount (init []) = 0
   \<and> successRate (fst (getSnapshot host0 (init []))) = 0
   \<and> errorRate (fst (getSnapshot host0 (init []))) = 0"
  using rates_one_decimal [of "run (init []) three_requests" host0]
    rates_one_decimal [of "init []" host0]
  by (simp add: counters_three_requests init_fields rates_getSnapshot js_eval)

text \<open>
  At module load no request has been counted, and \<open>successRate\<close> is 0, not 100.
\<close>

theorem rates_counterexample:
  "requestCount (init []) = 0
   \<and> successRate (fst (getSnapshot host0 (init []))) = 0
   \<and> successRate (fst (getSnapshot host0 (init []))) \<noteq> 100"
  by (simp add: rates_getSnapshot init_fields pct_def)

section \<open>The lifetime request rate\<close>









section \<open>The CPU sampler: the first call\<close>

lemma foldl_cpuDiff_sums:
  "n + length xs \<le> length prevs \<Longrightarrow>
   foldl (cpuDiff prevs) acc (enumerate n xs) =
     (fst acc + sum_list (map idle xs) - sum_list (map idle (take (length xs) (drop n prevs))),
      snd acc + sum_list (map total_ticks xs)
        - sum_list (map total_ticks (take (length xs) (drop n prevs))))"
proof (induction xs arbitrary: n acc)
  case Nil
  then show ?case by simp
next
  case (Cons x xs)
  then have n: "n < length prevs" and rest: "Suc n + length xs \<le> length prevs" by simp_all
  have d: "drop n prevs = prevs ! n # drop (Suc n) prevs"
    using n by (simp add: Cons_nth_drop_Suc)
  show ?case
    using Cons.IH [OF rest] n by (simp add: d cpuDiff_def)
qed

lemma cpuPercent_since:
  assumes "length prevs = length c"
  shows "cpuPercent prevs c =
     (if sum_list (map total_ticks c) - sum_list (map total_ticks prevs) > 0
      then Math_round
             ((1 - of_int (sum_list (map idle c) - sum_list (map idle prevs))
                 / of_int (sum_list (map total_ticks c) - sum_list (map total_ticks prevs)))
              * 100)
      else 0)"
proof -
  have "foldl (cpuDiff prevs) (0, 0) (enumerate 0 c) =
      (sum_list (map idle c) - sum_list (map idle prevs),
       sum_list (map total_ticks c) - sum_list (map total_ticks prevs))"
    using foldl_cpuDiff_sums [of 0 c prevs "(0, 0)"] assms by simp
  then show ?thesis by (simp add: cpuPercent_def Let_def)
qed

lemma Math_round_close: "\<bar>of_int (Math_round x) - x\<bar> \<le> 1 / 2"
proof -
  have "of_int (Math_round x) \<le> x + 1 / 2" "x + 1 / 2 < of_int (Math_round x) + 1"
    unfolding Math_round_def by linarith+
  then show ?thesis by linarith
qed

text \<open>
  C5, as the code has it. The first call of the CPU sampler measures against the reading
  taken at module load. It returns 0 when the tick counters are still what they were at
  module load, and when that reading has no core at all (a core missing there is taken
  as unchanged). With the same cores in both readings it returns 0 when no tick was
  counted since module load, and otherwise an integer at most one half away from the busy
  share, in percent, of the ticks counted since then.
\<close>

theorem first_cpuUsage:
  "fst (cpuUsage c (init c)) = 0
   \<and> fst (cpuUsage c (init [])) = 0
   \<and> (length boot = length c \<longrightarrow>
        (0 < sum_list (map total_ticks c) - sum_list (map total_ticks boot) \<longrightarrow>
           \<bar>of_int (fst (cpuUsage c (init boot)))
              - (1 - of_int (sum_list (map idle c) - sum_list (map idle boot))
                    / of_int (sum_list (map total_ticks c) - sum_list (map total_ticks boot)))
                * 100\<bar> \<le> (1 / 2 :: rat))
        \<and> (sum_list (map total_ticks c) - sum_list (map total_ticks boot) \<le> 0 \<longrightarrow>
           fst (cpuUsage c (init boot)) = 0))"
proof (intro conjI impI)
  show "fst (cpuUsage c (init c)) = 0"
    by (simp add: cpuUsage_def init_fields cpuPercent_same)
  show "fst (cpuUsage c (init [])) = 0"
    by (simp add: cpuUsage_def init_fields cpuPercent_no_previous)
next
  assume len: "length boot = length c"
    and pos: "0 < sum_list (map total_ticks c) - sum_list (map total_ticks boot)"
  have "fst (cpuUsage c (init boot)) =
      Math_round ((1 - of_int (sum_list (map idle c) - sum_list (map idle boot))
                    / of_int (sum_list (map total_ticks c) - sum_list (map total_ticks boot)))
                  * 100)"
    using cpuPercent_since [OF len] pos by (simp add: cpuUsage_def init_fields)
  then show "\<bar>of_int (fst (cpuUsage c (init boot)))
              - (1 - of_int (sum_list (map idle c) - sum_list (map idle boot))
                    / of_int (sum_list (map total_ticks c) - sum_list (map total_ticks boot)))
                * 100\<bar> \<le> (1 / 2 :: rat)"
    using Math_round_close by (simp only:)
next
  assume len: "length boot = length c"
    and "sum_list (map total_ticks c) - sum_list (map total_ticks boot) \<le> 0"
  then show "fst (cpuUsage c (init boot)) = 0"
    using cpuPercent_since [OF len] by (simp add: cpuUsage_def init_fields)
qed

text \<open>
  Of 200 ticks since module load 130 were idle: 35. Of 40 ticks 17 were idle, a busy share
  of 57.5: 57 and 58 are both within the distance.
\<close>

theorem first_cpuUsage_witness:
  "length [core_a] = length [core_b]
   \<and> 0 < sum_list (map total_ticks [core_b]) - sum_list (map total_ticks [core_a])
   \<and> \<bar>of_int (fst (cpuUsage [core_b] (init [core_a]))) - (1 - 130 / 200) * 100\<bar> \<le> (1 / 2 :: rat)
   \<and> fst (cpuUsage [core_b] (init [core_a])) = 35
   \<and> 0 < sum_list (map total_ticks [core_d]) - sum_list (map total_ticks [core_c])
   \<and> \<bar>of_int (fst (cpuUsage [core_d] (init [core_c]))) - (1 - 17 / 40) * 100\<bar> \<le> (1 / 2 :: rat)
   \<and> sum_list (map total_ticks [core_a]) - sum_list (map total_ticks [core_b]) \<le> 0
   \<and> fst (cpuUsage [core_a] (init [core_b])) = 0
   \<and> fst (cpuUsage [core_b] (init [core_b])) = 0
   \<and> fst (cpuUsage [core_b] (init [])) = 0"
proof -
  have v: "fst (cpuUsage [core_b] (init [core_a])) = 35"
    by (simp add: cpuUsage_def init_fields cpuPercent_def cpuDiff_def total_ticks_def core_a_def
        core_b_def js_eval)
  from first_cpuUsage [of "[core_b]" "[core_a]"] first_cpuUsage [of "[core_d]" "[core_c]"]
    first_cpuUsage [of "[core_a]" "[core_b]"] v
  show ?thesis
    by (simp add: total_ticks_def core_a_def core_b_def core_c_def core_d_def)
qed


text \<open>
  One core that counted 200 ticks since module load, 130 of them idle: the first call
  returns 35.
\<close>

theorem first_cpuUsage_counterexample:
  "fst (cpuUsage [core_b] (init [core_a])) = 35 \<and> fst (cpuUsage [core_b] (init [core_a])) \<noteq> 0"
  by (simp add: cpuUsage_def init_fields cpuPercent_def cpuDiff_def total_ticks_def core_a_def
      core_b_def js_eval)

section \<open>The sliding windows\<close>

lemma windows_same_time:
  assumes "\<forall>r \<in> set rs. tMinute r = T \<and> tHour r = T \<and> now (env r) = T"
    and "lastMinuteRequests s = replicate k T" and "lastHourRequests s = replicate k T"
  shows "lastMinuteRequests (run s (map Incoming rs)) = replicate (k + length rs) T
       \<and> lastHourRequests (run s (map Incoming rs)) = replicate (k + length rs) T"
  using assms
proof (induction rs arbitrary: s k)
  case Nil
  then show ?case by (simp add: run_Nil)
next
  case (Cons r rs)
  from Cons.prems(1) have r: "tMinute r = T" "tHour r = T" "now (env r) = T" by simp_all
  have app: "replicate k T @ [T] = replicate (Suc k) T"
    by (simp add: replicate_append_same)
  have m: "lastMinuteRequests (handler r s) = replicate (Suc k) T"
    unfolding windows_handler Cons.prems(2) r app by simp
  have h: "lastHourRequests (handler r s) = replicate (Suc k) T"
    unfolding windows_handler Cons.prems(3) r app by simp
  from Cons.prems(1) have rest: "\<forall>r \<in> set rs. tMinute r = T \<and> tHour r = T \<and> now (env r) = T"
    by simp
  show ?case using Cons.IH [OF rest m h] by (simp add: run_Cons)
qed

lemma window_counts_getSnapshot:
  "rpm (fst (getSnapshot h s)) =
     int (length (filter (\<lambda>t. now h - t < 60000) (lastMinuteRequests s)))"
  "rph (fst (getSnapshot h s)) =
     int (length (filter (\<lambda>t. now h - t < 3600000) (lastHourRequests s)))"
  by (simp_all add: snapshot_unfold)

text \<open>
  C6. Let \<open>K\<close> requests arrive after module load, the clock reading \<open>T\<close> throughout. A
  snapshot built at \<open>T + W - 1\<close> counts \<open>K\<close> and a snapshot built at \<open>T + W + 1\<close> counts 0,
  for the minute window (\<open>rpm\<close>, \<open>W = 60000\<close>) and for the hour window (\<open>rph\<close>,
  \<open>W = 3600000\<close>). Pruning at \<open>now\<close> drops exactly the entries \<open>t\<close> with \<open>now - t \<ge> W\<close>.
\<close>

theorem window_counts:
  "((\<forall>r \<in> set rs. tMinute r = T \<and> tHour r = T \<and> now (env r) = T) \<longrightarrow>
     rpm (fst (getSnapshot (h\<lparr>now := T + 60000 - 1\<rparr>) (run (init boot) (map Incoming rs))))
       = int (length rs)
     \<and> rpm (fst (getSnapshot (h\<lparr>now := T + 60000 + 1\<rparr>) (run (init boot) (map Incoming rs))))
       = 0
     \<and> rph (fst (getSnapshot (h\<lparr>now := T + 3600000 - 1\<rparr>) (run (init boot) (map Incoming rs))))
       = int (length rs)
     \<and> rph (fst (getSnapshot (h\<lparr>now := T + 3600000 + 1\<rparr>) (run (init boot) (map Incoming rs))))
       = 0)
   \<and> lastMinuteRequests (cleanupOldRequests n s)
       = filter (\<lambda>t. \<not> n - t \<ge> 60000) (lastMinuteRequests s)
   \<and> lastHourRequests (cleanupOldRequests n s)
       = filter (\<lambda>t. \<not> n - t \<ge> 3600000) (lastHourRequests s)"
proof (intro conjI impI)
  assume same: "\<forall>r \<in> set rs. tMinute r = T \<and> tHour r = T \<and> now (env r) = T"
  have w: "lastMinuteRequests (run (init boot) (map Incoming rs)) = replicate (length rs) T
       \<and> lastHourRequests (run (init boot) (map Incoming rs)) = replicate (length rs) T"
    using windows_same_time [OF same, of "init boot" 0] by (simp add: init_fields)
  show "rpm (fst (getSnapshot (h\<lparr>now := T + 60000 - 1\<rparr>) (run (init boot) (map Incoming rs))))
       = int (length rs)"
    and "rpm (fst (getSnapshot (h\<lparr>now := T + 60000 + 1\<rparr>) (run (init boot) (map Incoming rs))))
       = 0"
    and "rph (fst (getSnapshot (h\<lparr>now := T + 3600000 - 1\<rparr>) (run (init boot) (map Incoming rs))))
       = int (length rs)"
    and "rph (fst (getSnapshot (h\<lparr>now := T + 3600000 + 1\<rparr>) (run (init boot) (map Incoming rs))))
       = 0"
    by (simp_all add: window_counts_getSnapshot w)
next
  show "lastMinuteRequests (cleanupOldRequests n s)
       = filter (\<lambda>t. \<not> n - t \<ge> 60000) (lastMinuteRequests s)"
    and "lastHourRequests (cleanupOldRequests n s)
       = filter (\<lambda>t. \<not> n - t \<ge> 3600000) (lastHourRequests s)"
    by (simp_all add: cleanupOldRequests_def not_le)
qed

theorem window_counts_witness:
  "tMinute page_req = 1000 \<and> tHour missing_req = 1000 \<and> now (env api_req) = 1000
   \<and> rpm (fst (getSnapshot (host0\<lparr>now := 60999\<rparr>)
        (run (init []) (map Incoming [page_req, api_req, missing_req])))) = 3
   \<and> rpm (fst (getSnapshot (host0\<lparr>now := 61001\<rparr>)
        (run (init []) (map Incoming [page_req, api_req, missing_req])))) = 0
   \<and> rph (fst (getSnapshot (host0\<lparr>now := 3600999\<rparr>)
        (run (init []) (map Incoming [page_req, api_req, missing_req])))) = 3
   \<and> rph (fst (getSnapshot (host0\<lparr>now := 3601001\<rparr>)
        (run (init []) (map Incoming [page_req, api_req, missing_req])))) = 0"
  using window_counts [of "[page_req, api_req, missing_req]" 1000 host0 "[]"]
  by (simp add: examples)

section \<open>Event streams\<close>

lemma step_closed:
  assumes "i \<notin> timers s" and "i < nextTimer s"
  shows "i \<notin> timers (step s e) \<and> i < nextTimer (step s e)
         \<and> frames_of i (step s e) = frames_of i s"
proof (cases e)
  case (Incoming r)
  obtain snap where w: "written (handler r s) =
      (if url r = ''/events'' then written s @ [(nextTimer s, snap)] else written s)"
    using written_handler by blast
  have "frames_of i (handler r s) = frames_of i s"
    using w assms(2) by (simp add: frames_of_def)
  then show ?thesis
    using Incoming assms by (simp add: timers_handler nextTimer_handler)
next
  case (BodyEnd n)
  then show ?thesis using assms by (simp add: frames_of_def)
next
  case (Tick j h len)
  then show ?thesis using assms by (auto simp: sendData_runtime frames_of_def)
next
  case (Close j)
  then show ?thesis using assms by (simp add: frames_of_def)
qed

lemma run_closed:
  "i \<notin> timers s \<Longrightarrow> i < nextTimer s \<Longrightarrow>
   i \<notin> timers (run s evs) \<and> i < nextTimer (run s evs)
   \<and> frames_of i (run s evs) = frames_of i s"
proof (induction evs rule: rev_induct)
  case Nil
  then show ?case by (simp add: run_Nil)
next
  case (snoc e evs)
  then have "i \<notin> timers (run s evs)" "i < nextTimer (run s evs)"
    "frames_of i (run s evs) = frames_of i s" by simp_all
  then show ?case using step_closed [of i "run s evs" e] by (simp add: run_snoc)
qed

lemma nextTimer_step: "nextTimer s \<le> nextTimer (step s e)"
  by (cases e) (simp_all add: nextTimer_handler sendData_runtime)

lemma nextTimer_run: "nextTimer s \<le> nextTimer (run s evs)"
proof (induction evs rule: rev_induct)
  case Nil
  then show ?case by (simp add: run_Nil)
next
  case (snoc e evs)
  then show ?case using nextTimer_step [of "run s evs" e] by (simp add: run_snoc)
qed

lemma step_quiet:
  "\<not> changes_connections e \<Longrightarrow>
   activeConnections (step s e) = activeConnections s \<and> timers (step s e) = timers s"
  by (cases e) (simp_all add: activeConnections_handler timers_handler sendData_runtime)

lemma run_quiet:
  "\<forall>e \<in> set evs. \<not> changes_connections e \<Longrightarrow>
   activeConnections (run s evs) = activeConnections s \<and> timers (run s evs) = timers s"
proof (induction evs rule: rev_induct)
  case Nil
  then show ?case by (simp add: run_Nil)
next
  case (snoc e evs)
  then show ?case using step_quiet [of e "run s evs"] by (simp add: run_snoc)
qed

lemma step_stays_armed:
  "i \<in> timers s \<Longrightarrow> e \<noteq> Close i \<Longrightarrow> i \<in> timers (step s e)"
  by (cases e) (auto simp: timers_handler sendData_runtime)

lemma run_stays_armed:
  "i \<in> timers s \<Longrightarrow> Close i \<notin> set evs \<Longrightarrow> i \<in> timers (run s evs)"
proof (induction evs rule: rev_induct)
  case Nil
  then show ?case by (simp add: run_Nil)
next
  case (snoc e evs)
  then show ?case using step_stays_armed [of i "run s evs" e] by (auto simp: run_snoc)
qed

text \<open>
  C9. Let a request to \<open>/events\<close> open a stream in any state; its timer gets the number
  \<open>i\<close>. Whatever callbacks run before its connection closes, and whatever callbacks run
  after the close has been handled (ticks, other streams, requests), the frames written
  to the stream stay those written before the close, and timer \<open>i\<close> is never armed again.
  Opening the stream adds one to \<open>activeConnections\<close>; the close, the first for this
  stream, takes one off; so when no other stream opened or closed in between,
  \<open>activeConnections\<close> is back at its value before the stream opened. In particular, for a
  stream closed before any tick, only the frame sent on opening is ever written.
\<close>

theorem no_push_after_close:
  "url r = ''/events'' \<longrightarrow>
     frames_of (nextTimer s) (run (step (run (handler r s) evs) (Close (nextTimer s))) later)
       = frames_of (nextTimer s) (run (handler r s) evs)
     \<and> nextTimer s \<notin> timers (run (step (run (handler r s) evs) (Close (nextTimer s))) later)
     \<and> activeConnections (handler r s) = activeConnections s + 1
     \<and> (Close (nextTimer s) \<notin> set evs \<longrightarrow>
          activeConnections (step (run (handler r s) evs) (Close (nextTimer s)))
            = activeConnections (run (handler r s) evs) - 1)
     \<and> ((\<forall>e \<in> set evs. \<not> changes_connections e) \<longrightarrow>
          activeConnections (step (run (handler r s) evs) (Close (nextTimer s)))
            = activeConnections s)
     \<and> frames_of (nextTimer s) (run (step (handler r s) (Close (nextTimer s))) later)
         = frames_of (nextTimer s) (handler r s)
     \<and> activeConnections (step (handler r s) (Close (nextTimer s))) = activeConnections s"
proof
  assume sub: "url r = ''/events''"
  let ?i = "nextTimer s"
  let ?s1 = "handler r s"
  let ?s2 = "run ?s1 evs"
  let ?s3 = "step ?s2 (Close ?i)"
  have armed: "?i \<in> timers ?s1" and next1: "nextTimer ?s1 = ?i + 1"
    and conn1: "activeConnections ?s1 = activeConnections s + 1"
    using sub by (simp_all add: timers_handler nextTimer_handler activeConnections_handler)
  have "nextTimer ?s1 \<le> nextTimer ?s2" by (rule nextTimer_run)
  then have below: "?i < nextTimer ?s3" using next1 by simp
  have gone: "?i \<notin> timers ?s3" by simp
  have same3: "frames_of ?i ?s3 = frames_of ?i ?s2" by (simp add: frames_of_def)
  have after: "?i \<notin> timers (run ?s3 later) \<and> ?i < nextTimer (run ?s3 later)
      \<and> frames_of ?i (run ?s3 later) = frames_of ?i ?s3"
    using run_closed [OF gone below] .
  have dec: "Close ?i \<notin> set evs \<longrightarrow> activeConnections ?s3 = activeConnections ?s2 - 1"
    using run_stays_armed [OF armed] by simp
  have quiet: "(\<forall>e \<in> set evs. \<not> changes_connections e) \<longrightarrow>
      activeConnections ?s3 = activeConnections s"
  proof
    assume q: "\<forall>e \<in> set evs. \<not> changes_connections e"
    from run_quiet [OF q, of ?s1] armed conn1 show "activeConnections ?s3 = activeConnections s"
      by simp
  qed
  have below0: "?i < nextTimer (step ?s1 (Close ?i))" using next1 by simp
  have gone0: "?i \<notin> timers (step ?s1 (Close ?i))" by simp
  have after0: "frames_of ?i (run (step ?s1 (Close ?i)) later) = frames_of ?i ?s1"
    using run_closed [OF gone0 below0, of later] by (simp add: frames_of_def)
  have conn0: "activeConnections (step ?s1 (Close ?i)) = activeConnections s"
    using armed conn1 by simp
  from after same3 conn1 dec quiet after0 conn0
  show "frames_of ?i (run ?s3 later) = frames_of ?i ?s2
     \<and> ?i \<notin> timers (run ?s3 later)
     \<and> activeConnections ?s1 = activeConnections s + 1
     \<and> (Close ?i \<notin> set evs \<longrightarrow> activeConnections ?s3 = activeConnections ?s2 - 1)
     \<and> ((\<forall>e \<in> set evs. \<not> changes_connections e) \<longrightarrow>
          activeConnections ?s3 = activeConnections s)
     \<and> frames_of ?i (run (step ?s1 (Close ?i)) later) = frames_of ?i ?s1
     \<and> activeConnections (step ?s1 (Close ?i)) = activeConnections s"
    by simp
qed

text \<open>
  A stream opened at module load gets timer 0 and its first frame; one tick writes a
  second frame; after the close a further tick and a page request write nothing to it.
\<close>

theorem no_push_after_close_witness:
  "url stream_req = ''/events''
   \<and> nextTimer (init []) = 0
   \<and> Close 0 \<notin> set [Tick 0 host0 900]
   \<and> length (frames_of 0 (run (handler stream_req (init [])) [Tick 0 host0 900])) = 2
   \<and> length (frames_of 0
        (run (step (run (handler stream_req (init [])) [Tick 0 host0 900]) (Close 0))
           [Tick 0 host0 900, Incoming page_req])) = 2
   \<and> activeConnections (handler stream_req (init [])) = 1
   \<and> activeConnections (step (run (handler stream_req (init [])) [Tick 0 host0 900]) (Close 0))
       = 0
   \<and> length (frames_of 0
        (run (step (handler stream_req (init [])) (Close 0)) [Tick 0 host0 900])) = 1
   \<and> activeConnections (step (handler stream_req (init [])) (Close 0)) = 0"
proof -
  have sub: "url stream_req = ''/events''" and first: "nextTimer (init []) = 0"
    and conn: "activeConnections (init []) = 0"
    by (simp_all add: stream_req_def init_def)
  have before: "length (frames_of 0 (run (handler stream_req (init [])) [Tick 0 host0 900])) = 2"
    by (simp add: frames_of_def run_def stream_req_def init_def handler_unfold)
  have opened: "length (frames_of 0 (handler stream_req (init []))) = 1"
    by (simp add: frames_of_def stream_req_def init_def handler_unfold)
  from no_push_after_close [of stream_req "init []" "[Tick 0 host0 900]"
      "[Tick 0 host0 900, Incoming page_req]"]
    no_push_after_close [of stream_req "init []" "[]" "[Tick 0 host0 900]"]
  show ?thesis
    using sub first conn before opened by (simp add: run_Nil)
qed

end
